theory Spec2Isabelle
  imports Main "HOL-Library.AList"
begin

section \<open>Values of the host language\<close>

text \<open>
  The transformer of \<^verbatim>\<open>base-transformer.ts\<close> works on untyped values
  (\<^verbatim>\<open>schema: any\<close>): a schema, an entity and every intermediate result is a plain
  JavaScript value. An object is the list of its own enumerable properties in the order
  \<^verbatim>\<open>Object.keys\<close> reports them; a well-formed object has pairwise distinct keys.
  Numbers are restricted to integers; functions and the prototype chain are not
  represented, and a key that looks like an array index is not moved to the front as the
  host language does when it enumerates an object.
\<close>

datatype jsval =
    JUndefined
  | JNull
  | JBool bool
  | JNum int
  | JStr string
  | JArr "jsval list"
  | JObj "(string \<times> jsval) list"

type_synonym obj = "(string \<times> jsval) list"

datatype error =
    MissingAttributeError string
  | TypeError

text \<open>Truthiness, as tested by \<^verbatim>\<open>if (x)\<close> and \<^verbatim>\<open>!!x\<close>.\<close>

fun truthy :: "jsval \<Rightarrow> bool" where
  "truthy JUndefined = False"
| "truthy JNull = False"
| "truthy (JBool b) = b"
| "truthy (JNum n) = (n \<noteq> 0)"
| "truthy (JStr s) = (s \<noteq> [])"
| "truthy (JArr xs) = True"
| "truthy (JObj kvs) = True"

text \<open>The operator \<^verbatim>\<open>a ?? b\<close>.\<close>

fun nullish :: "jsval \<Rightarrow> jsval \<Rightarrow> jsval" where
  "nullish JUndefined d = d"
| "nullish JNull d = d"
| "nullish v d = v"

subsection \<open>Decimal rendering of indices and numbers\<close>

definition digit_char :: "nat \<Rightarrow> char" where
  "digit_char d = char_of (48 + d)"

fun string_of_nat :: "nat \<Rightarrow> string" where
  "string_of_nat n =
     (if n < 10 then [digit_char n] else string_of_nat (n div 10) @ [digit_char (n mod 10)])"

declare string_of_nat.simps [simp del]

definition string_of_int :: "int \<Rightarrow> string" where
  "string_of_int i = (if i < 0 then CHR ''-'' # string_of_nat (nat (- i)) else string_of_nat (nat i))"

subsection \<open>Own properties\<close>

text \<open>
  The own enumerable properties of a value that is not \<^verbatim>\<open>undefined\<close> or
  \<^verbatim>\<open>null\<close>: the entries of an object, the indexed elements of an array, the
  indexed characters of a string, nothing for a number or a boolean. This is what a spread
  \<^verbatim>\<open>{...v}\<close> copies (a spread of \<^verbatim>\<open>undefined\<close> or \<^verbatim>\<open>null\<close> copies nothing).
\<close>

fun own_entries :: "jsval \<Rightarrow> obj" where
  "own_entries (JObj kvs) = kvs"
| "own_entries (JArr xs) = zip (map string_of_nat [0..<length xs]) xs"
| "own_entries (JStr s) = zip (map string_of_nat [0..<length s]) (map (\<lambda>c. JStr [c]) s)"
| "own_entries v = []"

text \<open>\<^verbatim>\<open>Object.keys(v)\<close> with the values: a TypeError on \<^verbatim>\<open>undefined\<close> and \<^verbatim>\<open>null\<close>.\<close>

fun Object_entries :: "jsval \<Rightarrow> error + obj" where
  "Object_entries JUndefined = Inl TypeError"
| "Object_entries JNull = Inl TypeError"
| "Object_entries v = Inr (own_entries v)"

definition Object_keys :: "obj \<Rightarrow> string list" where
  "Object_keys kvs = map fst kvs"

text \<open>Reading \<^verbatim>\<open>o[k]\<close> on an object: the value, or \<^verbatim>\<open>undefined\<close>.\<close>

definition lookup :: "obj \<Rightarrow> string \<Rightarrow> jsval" where
  "lookup kvs k = (case map_of kvs k of None \<Rightarrow> JUndefined | Some v \<Rightarrow> v)"

text \<open>
  Property access \<^verbatim>\<open>v.k\<close> / \<^verbatim>\<open>v[k]\<close>: a TypeError on \<^verbatim>\<open>undefined\<close> and
  \<^verbatim>\<open>null\<close>, otherwise the own property or \<^verbatim>\<open>undefined\<close> (the \<^verbatim>\<open>length\<close> of
  arrays and strings included).
\<close>

fun get_prop :: "jsval \<Rightarrow> string \<Rightarrow> error + jsval" where
  "get_prop JUndefined k = Inl TypeError"
| "get_prop JNull k = Inl TypeError"
| "get_prop (JArr xs) k =
     Inr (if k = ''length'' then JNum (int (length xs)) else lookup (own_entries (JArr xs)) k)"
| "get_prop (JStr s) k =
     Inr (if k = ''length'' then JNum (int (length s)) else lookup (own_entries (JStr s)) k)"
| "get_prop v k = Inr (lookup (own_entries v) k)"

text \<open>
  Assignment \<^verbatim>\<open>acc[k] = v\<close> on an object is \<^const>\<open>AList.update\<close>: an existing key
  keeps its place, a new key goes last. A spread \<^verbatim>\<open>{...a, ...b}\<close> assigns the
  properties of \<open>b\<close> in turn to a copy of \<open>a\<close>.
\<close>

definition spread :: "obj \<Rightarrow> obj \<Rightarrow> obj" where
  "spread a b = fold (\<lambda>(k, v) acc. AList.update k v acc) b a"

text \<open>Sequencing of computations that may throw.\<close>

definition bind :: "error + 'a \<Rightarrow> ('a \<Rightarrow> error + 'b) \<Rightarrow> error + 'b" where
  "bind m f = (case m of Inl e \<Rightarrow> Inl e | Inr x \<Rightarrow> f x)"

section \<open>Helpers\<close>

text \<open>
  Modelled from the spec: \<^verbatim>\<open>helpers/is-object.ts\<close> is not part of the sources at hand.
  The walker treats "any nested object as a sub-schema" (section 9); a nested object is a
  plain object, neither \<^verbatim>\<open>null\<close> nor an array.
\<close>

fun isObject :: "jsval \<Rightarrow> bool" where
  "isObject (JObj kvs) = True"
| "isObject v = False"

text \<open>
  Modelled from the spec: \<^verbatim>\<open>helpers/is-scalar-type.ts\<close> is not part of the sources at
  hand. Section 4.5: values "that are not scalar (object/array)" are left out; strings,
  numbers and booleans are scalar.
\<close>

fun isScalarType :: "jsval \<Rightarrow> bool" where
  "isScalarType (JStr s) = True"
| "isScalarType (JNum n) = True"
| "isScalarType (JBool b) = True"
| "isScalarType v = False"

text \<open>
  Modelled from the spec: \<^verbatim>\<open>helpers/is-empty-object.ts\<close> is not part of the sources at
  hand; an empty object is an object without own properties.
\<close>

fun isEmptyObject :: "jsval \<Rightarrow> bool" where
  "isEmptyObject (JObj kvs) = (kvs = [])"
| "isEmptyObject v = False"

subsection \<open>The key template resolver\<close>

text \<open>
  Modelled from the spec: section 4.1 substitutes the stringified value of an attribute;
  the conversion is taken to be the one \<^verbatim>\<open>String.prototype.replace\<close> applies to a
  replacement value.
\<close>

fun join_with :: "string \<Rightarrow> string list \<Rightarrow> string" where
  "join_with sep [] = []"
| "join_with sep [x] = x"
| "join_with sep (x # y # ys) = x @ sep @ join_with sep (y # ys)"

fun ToString :: "jsval \<Rightarrow> string" where
  "ToString JUndefined = ''undefined''"
| "ToString JNull = ''null''"
| "ToString (JBool b) = (if b then ''true'' else ''false'')"
| "ToString (JNum n) = string_of_int n"
| "ToString (JStr s) = s"
| "ToString (JArr xs) =
     join_with '','' (map (\<lambda>x. if x = JUndefined \<or> x = JNull then [] else ToString x) xs)"
| "ToString (JObj kvs) = ''[object Object]''"

text \<open>
  Modelled from the spec: the substitution of the placeholders of a template (section 4.1),
  as a scanner. Its fourth argument is \<open>None\<close> outside a placeholder and holds the name
  read so far inside one; the last argument is the text produced, \<open>None\<close> once a
  placeholder was found absent under sparse semantics. An opening brace that is never closed
  is literal text.
\<close>

fun interpolate :: "obj \<Rightarrow> bool \<Rightarrow> string \<Rightarrow> string option \<Rightarrow> string option \<Rightarrow> error + string option" where
  "interpolate dict sp [] None out = Inr out"
| "interpolate dict sp [] (Some nm) out = Inr (map_option (\<lambda>t. t @ CHR ''{'' # nm) out)"
| "interpolate dict sp (c # cs) None out =
     (if c = CHR ''{'' then interpolate dict sp cs (Some []) out
      else interpolate dict sp cs None (map_option (\<lambda>t. t @ [c]) out))"
| "interpolate dict sp (c # cs) (Some nm) out =
     (if c = CHR ''}'' then
        (if lookup dict nm = JUndefined then
           (if sp then interpolate dict sp cs None None else Inl (MissingAttributeError nm))
         else interpolate dict sp cs None (map_option (\<lambda>t. t @ ToString (lookup dict nm)) out))
      else interpolate dict sp cs (Some (nm @ [c])) out)"

text \<open>
  Modelled from the spec: \<^verbatim>\<open>helpers/parse-key.ts\<close> is not part of the sources at hand.
  Section 4.1: every placeholder \<^verbatim>\<open>{attributeName}\<close> of a template is replaced by
  the stringified value of that attribute; when a referenced attribute is absent or
  undefined, the resolution is absent under sparse semantics and a
  \<open>MissingAttributeError\<close> otherwise. The absent result is \<^verbatim>\<open>undefined\<close>. The third
  argument is the option \<^verbatim>\<open>isSparseIndex\<close>, \<open>None\<close> when the caller passes no
  options, which means not sparse. A value that is not a string holds no placeholder and
  is returned as it is.
\<close>

fun parseKey :: "jsval \<Rightarrow> obj \<Rightarrow> bool option \<Rightarrow> error + jsval" where
  "parseKey (JStr s) dict opt =
     bind (interpolate dict (opt = Some True) s None (Some []))
       (\<lambda>r. Inr (case r of None \<Rightarrow> JUndefined | Some t \<Rightarrow> JStr t))"
| "parseKey v dict opt = Inr v"

section \<open>The recursive schema walker\<close>

text \<open>
  \<^verbatim>\<open>recursiveParseEntity\<close> (lines 188 to 215). The resolver \<^verbatim>\<open>parseKey\<close> is imported
  from a file that is not at hand, so the walker takes it as the parameter \<open>pk\<close>; the
  properties below that do not depend on what a template resolves to hold for every
  resolver. \<open>recursiveParseEntity_reduce\<close> is the \<^verbatim>\<open>reduce\<close> over the keys of the
  schema with its accumulator over the properties still to visit; a nested object is walked
  with its own \<^verbatim>\<open>isSparse\<close> flag, starting from an empty accumulator.
\<close>

type_synonym resolver = "jsval \<Rightarrow> obj \<Rightarrow> bool option \<Rightarrow> error + jsval"

function recursiveParseEntity_reduce :: "resolver \<Rightarrow> obj \<Rightarrow> bool \<Rightarrow> obj \<Rightarrow> obj \<Rightarrow> error + obj" where
  "recursiveParseEntity_reduce pk entity isSparse [] acc = Inr acc"
| "recursiveParseEntity_reduce pk entity isSparse ((key, currentValue) # rest) acc =
     (if isObject currentValue then
        (case recursiveParseEntity_reduce pk entity
                (truthy (lookup (own_entries currentValue) ''isSparse''))
                (own_entries currentValue) [] of
           Inl e \<Rightarrow> Inl e
         | Inr r \<Rightarrow>
             recursiveParseEntity_reduce pk entity isSparse rest (AList.update key (JObj r) acc))
      else
        (case pk currentValue entity (Some isSparse) of
           Inl e \<Rightarrow> Inl e
         | Inr parsedKey \<Rightarrow>
             recursiveParseEntity_reduce pk entity isSparse rest
               (if truthy parsedKey then AList.update key parsedKey acc else acc)))"
  by pat_completeness auto
termination
proof (relation "measure (\<lambda>(pk, entity, isSparse, kvs, acc). size_list (size_prod (\<lambda>k. 0) size) kvs)")
  fix key :: string and currentValue :: jsval and rest :: obj
  fix pk :: resolver and entity acc :: obj and isSparse :: bool
  assume "isObject currentValue"
  then have "size_list (size_prod (\<lambda>k. 0) size) (own_entries currentValue) < size currentValue"
    by (cases currentValue) simp_all
  then show "((pk, entity, truthy (lookup (own_entries currentValue) ''isSparse''),
               own_entries currentValue, []),
              (pk, entity, isSparse, (key, currentValue) # rest, acc))
             \<in> measure (\<lambda>(pk, entity, isSparse, kvs, acc). size_list (size_prod (\<lambda>k. 0) size) kvs)"
    by simp
qed simp_all

definition recursiveParseEntity :: "resolver \<Rightarrow> jsval \<Rightarrow> obj \<Rightarrow> bool \<Rightarrow> error + obj" where
  "recursiveParseEntity pk schema entity isSparse =
     bind (Object_entries schema) (\<lambda>kvs. recursiveParseEntity_reduce pk entity isSparse kvs [])"

section \<open>External collaborators\<close>

text \<open>
  Modelled from the spec: the enum \<^verbatim>\<open>INDEX_TYPE\<close> and the class \<^verbatim>\<open>Table\<close> come from
  the package \<^verbatim>\<open>@typedorm/common\<close>, which is not part of the sources at hand. Section 3:
  a table index signature is a GSI with a partition key name and a sort key name, or an LSI
  with a sort key name; \<^verbatim>\<open>getIndexByKey\<close> answers with the signature declared under a
  name, \<open>None\<close> standing for \<^verbatim>\<open>undefined\<close> when the table declares none. The two
  members of the enum are distinct string constants.
\<close>

datatype INDEX_TYPE = GSI | LSI

fun INDEX_TYPE_value :: "INDEX_TYPE \<Rightarrow> jsval" where
  "INDEX_TYPE_value GSI = JStr ''GLOBAL_SECONDARY_INDEX''"
| "INDEX_TYPE_value LSI = JStr ''LOCAL_SECONDARY_INDEX''"

datatype tableIndex =
    GSIIndex string string
  | LSIIndex string

fun signature_type :: "tableIndex \<Rightarrow> INDEX_TYPE" where
  "signature_type (GSIIndex partitionKey sortKey) = GSI"
| "signature_type (LSIIndex sortKey) = LSI"

fun signature_keys :: "tableIndex \<Rightarrow> string list" where
  "signature_keys (GSIIndex partitionKey sortKey) = [partitionKey, sortKey]"
| "signature_keys (LSIIndex sortKey) = [sortKey]"

record Table =
  table_name :: string
  getIndexByKey :: "jsval \<Rightarrow> tableIndex option"

text \<open>
  Modelled from the spec: the connection and the metadata classes are not part of the
  sources at hand. Section 6: for the class of an entity the connection supplies the schema
  (an object) with the table, and the attribute descriptors, of which the auto-generated
  ones carry a name and a value.
\<close>

record entityMetadata =
  schema :: obj
  table :: Table

record attributeMetadata =
  attr_name :: string
  attr_value :: jsval
  IsAutoGeneratedAttributeMetadata :: bool

record connection =
  getEntityByTarget :: entityMetadata
  getAttributesForEntity :: "attributeMetadata list"

section \<open>The primary key\<close>

text \<open>
  \<^verbatim>\<open>getParsedPrimaryKey\<close> (lines 174 to 180): the walker on the attributes of the
  primary-key schema, with the default \<^verbatim>\<open>isSparse = false\<close>.
\<close>

definition getParsedPrimaryKey :: "resolver \<Rightarrow> Table \<Rightarrow> jsval \<Rightarrow> obj \<Rightarrow> error + obj" where
  "getParsedPrimaryKey pk tbl primaryKey attributes =
     bind (get_prop primaryKey ''attributes'')
       (\<lambda>a. recursiveParseEntity pk a attributes False)"

section \<open>The entity-to-storage transform\<close>

text \<open>
  The function \<^verbatim>\<open>onlyKeysIndex\<close> of lines 67 to 89. Both conditions read
  \<^verbatim>\<open>index.metadata.type\<close> first and \<^verbatim>\<open>tableIndexSignature.type\<close> only when the
  former matched, which throws a TypeError when the signature is \<^verbatim>\<open>undefined\<close>.
\<close>

definition onlyKeysIndex :: "tableIndex option \<Rightarrow> jsval \<Rightarrow> error + jsval" where
  "onlyKeysIndex tableIndexSignature index =
     bind (get_prop index ''metadata'') (\<lambda>md.
     bind (get_prop md ''type'') (\<lambda>ty.
       if ty = INDEX_TYPE_value GSI then
         (case tableIndexSignature of
            None \<Rightarrow> Inl TypeError
          | Some (GSIIndex partitionKey sortKey) \<Rightarrow>
              bind (get_prop index ''attributes'') (\<lambda>attrs.
              bind (get_prop attrs partitionKey) (\<lambda>p.
              bind (get_prop attrs sortKey) (\<lambda>s.
                Inr (JObj (AList.update sortKey s [(partitionKey, p)])))))
          | Some (LSIIndex sortKey) \<Rightarrow> Inr index)
       else if ty = INDEX_TYPE_value LSI then
         (case tableIndexSignature of
            None \<Rightarrow> Inl TypeError
          | Some (LSIIndex sortKey) \<Rightarrow>
              bind (get_prop index ''attributes'') (\<lambda>attrs.
              bind (get_prop attrs sortKey) (\<lambda>s.
                Inr (JObj [(sortKey, s)])))
          | Some (GSIIndex partitionKey sortKey) \<Rightarrow> Inr index)
       else Inr index))"

text \<open>The \<^verbatim>\<open>reduce\<close> of lines 60 to 93 over the resolved indexes.\<close>

fun normalizedIndexes_reduce :: "Table \<Rightarrow> obj \<Rightarrow> obj \<Rightarrow> error + obj" where
  "normalizedIndexes_reduce tbl [] acc = Inr acc"
| "normalizedIndexes_reduce tbl ((key, index) # rest) acc =
     bind (get_prop index ''metadata'') (\<lambda>md.
     bind (get_prop md ''_name'') (\<lambda>nm.
     bind (onlyKeysIndex (getIndexByKey tbl (nullish nm (JStr []))) index) (\<lambda>oki.
       normalizedIndexes_reduce tbl rest (spread (spread [] acc) (own_entries oki)))))"

text \<open>Lines 37 to 41: every auto-generated attribute is set on a fresh copy of the entity.\<close>

definition autoPopulate :: "attributeMetadata list \<Rightarrow> obj \<Rightarrow> obj" where
  "autoPopulate attrs entity =
     fold (\<lambda>attr e.
            if IsAutoGeneratedAttributeMetadata attr
            then AList.update (attr_name attr) (attr_value attr) (spread [] e)
            else e) attrs entity"

text \<open>
  Lines 43 to 99: the schema is walked, the primary key is resolved, the resolved indexes
  are normalized, and both are merged into \<^verbatim>\<open>formattedSchema\<close>.
\<close>

definition formattedSchema :: "resolver \<Rightarrow> entityMetadata \<Rightarrow> obj \<Rightarrow> error + obj" where
  "formattedSchema pk metadata entity =
     bind (recursiveParseEntity pk (JObj (schema metadata)) entity False) (\<lambda>parsedSchema.
     bind (getParsedPrimaryKey pk (table metadata) (lookup (schema metadata) ''primaryKey'') entity)
       (\<lambda>normalizedPrimaryKey.
     bind (normalizedIndexes_reduce (table metadata)
             (spread [] (own_entries (lookup parsedSchema ''indexes''))) [])
       (\<lambda>normalizedIndexes.
          Inr (spread (spread [] normalizedPrimaryKey) normalizedIndexes))))"

text \<open>\<^verbatim>\<open>toDynamoEntity\<close> (lines 31 to 102) as a function of the entity's properties.\<close>

definition toDynamoEntity :: "resolver \<Rightarrow> connection \<Rightarrow> obj \<Rightarrow> error + obj" where
  "toDynamoEntity pk conn entity0 =
     (let metadata = getEntityByTarget conn;
          entity = autoPopulate (getAttributesForEntity conn) entity0
      in bind (formattedSchema pk metadata entity)
           (\<lambda>fs. Inr (spread (spread [] entity) fs)))"

subsection \<open>The transform on a store of objects\<close>

text \<open>
  To speak about the caller's instance, objects live in a store and the variable
  \<^verbatim>\<open>entity\<close> holds a reference (a position of the store). An object literal allocates;
  \<^verbatim>\<open>Object.assign(target, ...sources)\<close> writes the properties of the sources into the
  target in place and returns the target. The accumulators of the walker and of the
  normalizer are fresh objects that never alias the entity, so they stay values.
\<close>

type_synonym store = "obj list"

definition alloc :: "store \<Rightarrow> obj \<Rightarrow> store \<times> nat" where
  "alloc h ob = (h @ [ob], length h)"

definition Object_assign :: "store \<Rightarrow> nat \<Rightarrow> obj list \<Rightarrow> store \<times> nat" where
  "Object_assign h target sources =
     (h[target := fold (\<lambda>src t. spread t src) sources (h ! target)], target)"

text \<open>
  Line 39: \<^verbatim>\<open>entity = Object.assign({...entity, [attr.name]: attr.value})\<close>: the literal
  is the target, there is no source, and the variable is bound to the target.
\<close>

definition autoPopulate_store :: "attributeMetadata list \<Rightarrow> store \<Rightarrow> nat \<Rightarrow> store \<times> nat" where
  "autoPopulate_store attrs h entity =
     fold (\<lambda>attr (h, entity).
            if IsAutoGeneratedAttributeMetadata attr
            then (let (h', lit) = alloc h (AList.update (attr_name attr) (attr_value attr)
                                             (spread [] (h ! entity)))
                  in Object_assign h' lit [])
            else (h, entity)) attrs (h, entity)"

definition toDynamoEntity_store ::
  "resolver \<Rightarrow> connection \<Rightarrow> store \<Rightarrow> nat \<Rightarrow> store \<times> (error + nat)" where
  "toDynamoEntity_store pk conn h entity0 =
     (let metadata = getEntityByTarget conn;
          (h1, entity) = autoPopulate_store (getAttributesForEntity conn) h entity0
      in case formattedSchema pk metadata (h1 ! entity) of
           Inl e \<Rightarrow> (h1, Inl e)
         | Inr fs \<Rightarrow>
             (let (h2, res) = alloc h1 (spread (spread [] (h1 ! entity)) fs)
              in (h2, Inr res)))"

section \<open>The affected indexes\<close>

text \<open>\<^verbatim>\<open>String.prototype.includes\<close>: the argument occurs as a contiguous part.\<close>

fun str_includes :: "string \<Rightarrow> string \<Rightarrow> bool" where
  "str_includes [] sub = (sub = [])"
| "str_includes (c # cs) sub = (take (length sub) (c # cs) = sub \<or> str_includes cs sub)"

text \<open>
  The call \<^verbatim>\<open>currentInterpolation.includes(attrKey)\<close>: a substring test on a string,
  a membership test on an array, a TypeError on a value without that method.
\<close>

fun includes_call :: "jsval \<Rightarrow> string \<Rightarrow> error + bool" where
  "includes_call (JStr s) k = Inr (str_includes s k)"
| "includes_call (JArr xs) k = Inr (JStr k \<in> set xs)"
| "includes_call v k = Inl TypeError"

text \<open>The inner \<^verbatim>\<open>forEach\<close> of lines 148 to 159, over the interpolations of one index.\<close>

fun interpolations_forEach ::
  "resolver \<Rightarrow> obj \<Rightarrow> string \<Rightarrow> jsval \<Rightarrow> obj \<Rightarrow> obj \<Rightarrow> error + obj" where
  "interpolations_forEach pk attributes attrKey currIndex [] acc = Inr acc"
| "interpolations_forEach pk attributes attrKey currIndex
       ((interpolationKey, currentInterpolation) # rest) acc =
     bind (includes_call currentInterpolation attrKey) (\<lambda>hit.
       if hit then
         bind (get_prop currIndex ''attributes'') (\<lambda>attrs.
         bind (get_prop attrs interpolationKey) (\<lambda>template.
         bind (pk template attributes None) (\<lambda>parsedIndex.
           interpolations_forEach pk attributes attrKey currIndex rest
             (AList.update interpolationKey parsedIndex acc))))
       else interpolations_forEach pk attributes attrKey currIndex rest acc)"

text \<open>The \<^verbatim>\<open>forEach\<close> of lines 137 to 160, over the indexes of the schema.\<close>

fun indexes_forEach :: "resolver \<Rightarrow> obj \<Rightarrow> string \<Rightarrow> obj \<Rightarrow> obj \<Rightarrow> error + obj" where
  "indexes_forEach pk attributes attrKey [] acc = Inr acc"
| "indexes_forEach pk attributes attrKey ((key, currIndex) # rest) acc =
     bind (get_prop currIndex ''metadata'') (\<lambda>md.
     bind (get_prop md ''_interpolations'') (\<lambda>i.
       let interpolationsForCurrIndex = nullish i (JObj []) in
       if isEmptyObject interpolationsForCurrIndex
       then indexes_forEach pk attributes attrKey rest acc
       else
         bind (interpolations_forEach pk attributes attrKey currIndex
                 (own_entries interpolationsForCurrIndex) acc)
           (\<lambda>acc'. indexes_forEach pk attributes attrKey rest acc')))"

text \<open>The \<^verbatim>\<open>reduce\<close> of lines 122 to 165, over the changed attributes.\<close>

fun affectedIndexes_reduce ::
  "resolver \<Rightarrow> string \<Rightarrow> jsval \<Rightarrow> obj \<Rightarrow> obj \<Rightarrow> obj \<Rightarrow> error + obj" where
  "affectedIndexes_reduce pk nestedKeySeparator indexes attributes [] acc = Inr acc"
| "affectedIndexes_reduce pk nestedKeySeparator indexes attributes
       ((attrKey, currAttrValue) # rest) acc =
     (if str_includes attrKey nestedKeySeparator \<or> \<not> isScalarType currAttrValue
      then affectedIndexes_reduce pk nestedKeySeparator indexes attributes rest acc
      else if \<not> truthy indexes
      then affectedIndexes_reduce pk nestedKeySeparator indexes attributes rest acc
      else
        bind (indexes_forEach pk attributes attrKey (own_entries indexes) acc)
          (\<lambda>acc'. affectedIndexes_reduce pk nestedKeySeparator indexes attributes rest acc'))"

text \<open>
  \<^verbatim>\<open>getAffectedIndexesForAttributes\<close> (lines 110 to 167). The options are \<open>None\<close> when
  the caller passes none; the separator then is the dot.
\<close>

definition getAffectedIndexesForAttributes ::
  "resolver \<Rightarrow> connection \<Rightarrow> obj \<Rightarrow> string option \<Rightarrow> error + obj" where
  "getAffectedIndexesForAttributes pk conn attributes options =
     (let nestedKeySeparator = (case options of None \<Rightarrow> ''.'' | Some s \<Rightarrow> s);
          indexes = lookup (schema (getEntityByTarget conn)) ''indexes''
      in affectedIndexes_reduce pk nestedKeySeparator indexes attributes attributes [])"

section \<open>Notions used by the properties\<close>

text \<open>
  An object of the host language has no two properties of the same name; \<open>distinct_keys\<close>
  says so for a value and for every object nested in it.
\<close>

fun distinct_keys :: "jsval \<Rightarrow> bool" where
  "distinct_keys (JObj kvs) = (distinct (map fst kvs) \<and> (\<forall>v \<in> set (map snd kvs). distinct_keys v))"
| "distinct_keys (JArr xs) = (\<forall>v \<in> set xs. distinct_keys v)"
| "distinct_keys v = True"

text \<open>
  The result of the walker as section 4.2 words it: the tree of the schema with every
  template replaced by its resolved value, the omitted leaves left out, and, when \<open>prune\<close>
  is set, every nested node left out that has become empty. With \<open>omitFalsy\<close> a leaf is
  omitted when its resolved value is falsy, without it only when the resolved value is the
  absent one.
\<close>

function resolvedTree ::
  "bool \<Rightarrow> bool \<Rightarrow> resolver \<Rightarrow> obj \<Rightarrow> bool \<Rightarrow> obj \<Rightarrow> error + obj" where
  "resolvedTree omitFalsy prune pk entity isSparse [] = Inr []"
| "resolvedTree omitFalsy prune pk entity isSparse ((key, node) # rest) =
     (if isObject node then
        (case resolvedTree omitFalsy prune pk entity
                (truthy (lookup (own_entries node) ''isSparse'')) (own_entries node) of
           Inl e \<Rightarrow> Inl e
         | Inr sub \<Rightarrow>
             (case resolvedTree omitFalsy prune pk entity isSparse rest of
                Inl e \<Rightarrow> Inl e
              | Inr rs \<Rightarrow> Inr (if prune \<and> sub = [] then rs else (key, JObj sub) # rs)))
      else
        (case pk node entity (Some isSparse) of
           Inl e \<Rightarrow> Inl e
         | Inr v \<Rightarrow>
             (case resolvedTree omitFalsy prune pk entity isSparse rest of
                Inl e \<Rightarrow> Inl e
              | Inr rs \<Rightarrow>
                  Inr (if (if omitFalsy then \<not> truthy v else v = JUndefined)
                       then rs else (key, v) # rs))))"
  by pat_completeness auto
termination
proof (relation "measure (\<lambda>(omitFalsy, prune, pk, entity, isSparse, kvs).
                            size_list (size_prod (\<lambda>k. 0) size) kvs)")
  fix key :: string and node :: jsval and rest :: obj
  fix pk :: resolver and entity :: obj and isSparse omitFalsy prune :: bool
  assume "isObject node"
  then have "size_list (size_prod (\<lambda>k. 0) size) (own_entries node) < size node"
    by (cases node) simp_all
  then show "((omitFalsy, prune, pk, entity, truthy (lookup (own_entries node) ''isSparse''),
               own_entries node),
              (omitFalsy, prune, pk, entity, isSparse, (key, node) # rest))
             \<in> measure (\<lambda>(omitFalsy, prune, pk, entity, isSparse, kvs).
                            size_list (size_prod (\<lambda>k. 0) size) kvs)"
    by simp
qed simp_all

text \<open>
  The interpolations of an index as lines 138 to 140 read them:
  \<^verbatim>\<open>currIndex.metadata._interpolations ?? {}\<close>.
\<close>

definition interpolationsFor :: "jsval \<Rightarrow> error + jsval" where
  "interpolationsFor currIndex =
     bind (get_prop currIndex ''metadata'') (\<lambda>md.
     bind (get_prop md ''_interpolations'') (\<lambda>i. Inr (nullish i (JObj []))))"

text \<open>
  A changed attribute is looked at by \<^verbatim>\<open>getAffectedIndexesForAttributes\<close> when its key
  does not contain the separator and its value is scalar (lines 126 to 131).
\<close>

definition considered :: "string \<Rightarrow> string \<times> jsval \<Rightarrow> bool" where
  "considered nestedKeySeparator kv =
     (\<not> str_includes (fst kv) nestedKeySeparator \<and> isScalarType (snd kv))"

text \<open>
  The affected indexes as section 4.5 words them. An interpolation list can be asked for a
  reference when it is an array or a string; an index is readable when its interpolations
  can be read and every list among them can be asked.
\<close>

fun has_includes :: "jsval \<Rightarrow> bool" where
  "has_includes (JStr s) = True"
| "has_includes (JArr xs) = True"
| "has_includes v = False"

definition readable_index :: "jsval \<Rightarrow> bool" where
  "readable_index currIndex =
     (case interpolationsFor currIndex of
        Inl e \<Rightarrow> False
      | Inr ip \<Rightarrow> list_all (\<lambda>kv. has_includes (snd kv)) (own_entries ip))"

text \<open>
  The index attributes of one index whose interpolation list references a changed
  attribute, each with its template as \<^verbatim>\<open>currIndex.attributes[interpolationKey]\<close>
  reads it.
\<close>

definition referencing :: "jsval \<Rightarrow> string \<Rightarrow> (string \<times> (error + jsval)) list" where
  "referencing currIndex attrKey =
     (case interpolationsFor currIndex of
        Inl e \<Rightarrow> []
      | Inr ip \<Rightarrow>
          map (\<lambda>kv. (fst kv, bind (get_prop currIndex ''attributes'') (\<lambda>a. get_prop a (fst kv))))
            (filter (\<lambda>kv. includes_call (snd kv) attrKey = Inr True) (own_entries ip)))"

text \<open>
  What one changed attribute contributes: nothing when it is not considered, otherwise the
  index attributes of every index that reference it. \<open>hits\<close> collects the contributions
  of the changed attributes in their order.
\<close>

definition contribution :: "string \<Rightarrow> jsval \<Rightarrow> string \<times> jsval \<Rightarrow> (string \<times> (error + jsval)) list" where
  "contribution nestedKeySeparator indexes kv =
     (if considered nestedKeySeparator kv \<and> truthy indexes
      then concat (map (\<lambda>ix. referencing (snd ix) (fst kv)) (own_entries indexes))
      else [])"

definition hits :: "string \<Rightarrow> jsval \<Rightarrow> obj \<Rightarrow> (string \<times> (error + jsval)) list" where
  "hits nestedKeySeparator indexes attributes =
     concat (map (contribution nestedKeySeparator indexes) attributes)"

text \<open>
  Resolving the collected templates in turn against the changed attributes, with no sparse
  option, each result recorded under the name of its index attribute; the first error ends
  the resolution.
\<close>

fun resolveHits :: "resolver \<Rightarrow> obj \<Rightarrow> (string \<times> (error + jsval)) list \<Rightarrow> obj \<Rightarrow> error + obj" where
  "resolveHits pk attributes [] acc = Inr acc"
| "resolveHits pk attributes ((interpolationKey, t) # rest) acc =
     (case t of
        Inl e \<Rightarrow> Inl e
      | Inr template \<Rightarrow>
          (case pk template attributes None of
             Inl e \<Rightarrow> Inl e
           | Inr parsedIndex \<Rightarrow>
               resolveHits pk attributes rest (AList.update interpolationKey parsedIndex acc)))"

text \<open>A collected template fails when it cannot be read or the resolver throws on it.\<close>

definition fails :: "resolver \<Rightarrow> obj \<Rightarrow> string \<times> (error + jsval) \<Rightarrow> error \<Rightarrow> bool" where
  "fails pk attributes hit e =
     (case snd hit of
        Inl x \<Rightarrow> x = e
      | Inr template \<Rightarrow> pk template attributes None = Inl e)"

section \<open>An example entity type\<close>

text \<open>
  A user entity as section 8 sketches it: the primary key is built from \<open>id\<close>; the
  index \<open>GSI1\<close> is a GSI keyed by the e-mail address and by the identifier with the
  status. The attribute \<open>createdAt\<close> is auto-generated.
\<close>

definition user_primaryKey :: jsval where
  "user_primaryKey =
     JObj [(''attributes'', JObj [(''PK'', JStr ''USER#{id}''), (''SK'', JStr ''PROFILE#{id}'')]),
           (''metadata'', JObj [])]"

definition user_GSI1 :: jsval where
  "user_GSI1 =
     JObj [(''attributes'',
              JObj [(''GSI1PK'', JStr ''EMAIL#{email}''), (''GSI1SK'', JStr ''USER#{id}#{status}'')]),
           (''metadata'',
              JObj [(''_name'', JStr ''GSI1''), (''type'', INDEX_TYPE_value GSI),
                    (''_interpolations'',
                       JObj [(''GSI1PK'', JArr [JStr ''email'']),
                             (''GSI1SK'', JArr [JStr ''id'', JStr ''status''])])])]"

definition user_table :: Table where
  "user_table =
     \<lparr>table_name = ''users'',
      getIndexByKey = (\<lambda>k. if k = JStr ''GSI1'' then Some (GSIIndex ''GSI1PK'' ''GSI1SK'') else None)\<rparr>"

definition bare_table :: Table where
  "bare_table = \<lparr>table_name = ''users'', getIndexByKey = (\<lambda>k. None)\<rparr>"

definition user_connection :: connection where
  "user_connection =
     \<lparr>getEntityByTarget =
        \<lparr>schema = [(''primaryKey'', user_primaryKey), (''indexes'', JObj [(''GSI1'', user_GSI1)])],
         table = user_table\<rparr>,
      getAttributesForEntity =
        [\<lparr>attr_name = ''id'', attr_value = JUndefined, IsAutoGeneratedAttributeMetadata = False\<rparr>,
         \<lparr>attr_name = ''createdAt'', attr_value = JNum 1604361600,
          IsAutoGeneratedAttributeMetadata = True\<rparr>]\<rparr>"

text \<open>
  The same entity type with \<open>GSI1\<close> declared sparse: the object that holds the templates
  carries the flag, which is where the walker reads it (line 199).
\<close>

definition sparse_GSI1 :: jsval where
  "sparse_GSI1 =
     JObj [(''attributes'',
              JObj [(''GSI1PK'', JStr ''EMAIL#{email}''), (''GSI1SK'', JStr ''EMAIL#{email}''),
                    (''isSparse'', JBool True)]),
           (''metadata'',
              JObj [(''_name'', JStr ''GSI1''), (''type'', INDEX_TYPE_value GSI),
                    (''isSparse'', JBool True),
                    (''_interpolations'',
                       JObj [(''GSI1PK'', JArr [JStr ''email'']),
                             (''GSI1SK'', JArr [JStr ''email''])])])]"

definition sparse_connection :: connection where
  "sparse_connection =
     \<lparr>getEntityByTarget =
        \<lparr>schema = [(''primaryKey'', user_primaryKey), (''indexes'', JObj [(''GSI1'', sparse_GSI1)])],
         table = user_table\<rparr>,
      getAttributesForEntity = []\<rparr>"

text \<open>
  A resolved index as in the example of section 8: the two keys of the index and one more
  attribute.
\<close>

definition resolved_GSI1 :: jsval where
  "resolved_GSI1 =
     JObj [(''attributes'',
              JObj [(''GSI1PK'', JStr ''a''), (''GSI1SK'', JStr ''b''), (''extra'', JStr ''c'')]),
           (''metadata'', JObj [(''_name'', JStr ''GSI1''), (''type'', INDEX_TYPE_value GSI)])]"

section \<open>Properties of the walker\<close>

declare recursiveParseEntity_reduce.simps(2) [simp del]
declare resolvedTree.simps(2) [simp del]

lemma update_fresh: "k \<notin> fst ` set acc \<Longrightarrow> AList.update k x acc = acc @ [(k, x)]"
  by (induction acc) auto

lemma reduce_acc:
  "distinct (map fst kvs) \<Longrightarrow> fst ` set acc \<inter> fst ` set kvs = {} \<Longrightarrow>
   recursiveParseEntity_reduce pk e sp kvs acc =
     (case recursiveParseEntity_reduce pk e sp kvs [] of Inl x \<Rightarrow> Inl x | Inr r \<Rightarrow> Inr (acc @ r))"
proof (induction kvs arbitrary: acc)
  case Nil
  then show ?case by simp
next
  case (Cons kv rest)
  obtain k v where kv: "kv = (k, v)" by (cases kv)
  from Cons.prems kv have fresh: "k \<notin> fst ` set acc" and d: "distinct (map fst rest)"
    and k_rest: "k \<notin> fst ` set rest" and disj: "fst ` set acc \<inter> fst ` set rest = {}"
    by auto
  have step: "recursiveParseEntity_reduce pk e sp rest (acc @ [(k, x)]) =
      (case recursiveParseEntity_reduce pk e sp rest [(k, x)] of Inl y \<Rightarrow> Inl y | Inr r \<Rightarrow> Inr (acc @ r))" for x
  proof -
    have a: "fst ` set (acc @ [(k, x)]) \<inter> fst ` set rest = {}" using disj k_rest by auto
    have b: "fst ` set [(k, x)] \<inter> fst ` set rest = {}" using k_rest by auto
    show ?thesis
      by (simp add: Cons.IH[OF d a] Cons.IH[OF d b] split: sum.splits)
  qed
  show ?case
    unfolding kv recursiveParseEntity_reduce.simps(2)[of pk e sp k v rest]
    using step Cons.IH[OF d disj]
    by (auto simp: update_fresh[OF fresh] split: sum.splits)
qed

lemma reduce_keys_subset:
  "recursiveParseEntity_reduce pk entity sp kvs acc = Inr r \<Longrightarrow>
     fst ` set r \<subseteq> fst ` set acc \<union> fst ` set kvs"
proof (induction kvs arbitrary: acc)
  case Nil
  then show ?case by simp
next
  case (Cons kv rest)
  obtain k v where kv: "kv = (k, v)" by (cases kv)
  from Cons.prems obtain acc' where
    "recursiveParseEntity_reduce pk entity sp rest acc' = Inr r"
    "fst ` set acc' \<subseteq> insert k (fst ` set acc)"
    unfolding kv recursiveParseEntity_reduce.simps(2)[of pk entity sp k v rest acc]
    by (auto split: if_splits sum.splits simp: dom_update)
  with Cons.IH[of acc'] show ?case unfolding kv by auto
qed

lemma walker_tree_acc:
  "distinct_keys (JObj kvs) \<Longrightarrow> fst ` set acc \<inter> fst ` set kvs = {} \<Longrightarrow>
   recursiveParseEntity_reduce pk e sp kvs acc =
     (case resolvedTree True False pk e sp kvs of Inl x \<Rightarrow> Inl x | Inr r \<Rightarrow> Inr (acc @ r))"
proof (induction pk e sp kvs acc rule: recursiveParseEntity_reduce.induct)
  case (1 pk entity isSparse acc)
  then show ?case by simp
next
  case (2 pk entity isSparse key currentValue rest acc)
  from "2.prems" have fresh: "key \<notin> fst ` set acc" and dr: "distinct_keys (JObj rest)"
    and k_rest: "key \<notin> fst ` set rest" and disj: "fst ` set acc \<inter> fst ` set rest = {}"
    and dv: "distinct_keys currentValue"
    by auto
  have a: "fst ` set (AList.update key x acc) \<inter> fst ` set rest = {}" for x
    using disj k_rest by (auto simp: dom_update)
  show ?case
  proof (cases "isObject currentValue")
    case True
    then have dn: "distinct_keys (JObj (own_entries currentValue))" using dv
      by (cases currentValue) simp_all
    have n: "recursiveParseEntity_reduce pk entity (truthy (lookup (own_entries currentValue) ''isSparse''))
              (own_entries currentValue) [] =
            resolvedTree True False pk entity (truthy (lookup (own_entries currentValue) ''isSparse''))
              (own_entries currentValue)"
      using "2.IH"(1)[OF True dn] by (simp split: sum.splits)
    show ?thesis
      unfolding recursiveParseEntity_reduce.simps(2)[of pk entity isSparse key currentValue rest acc]
        resolvedTree.simps(2)[of True False pk entity isSparse key currentValue rest]
      using True n "2.IH"(2)[OF True _ dr a]
      by (auto simp: update_fresh[OF fresh] split: sum.splits)
  next
    case False
    note unf = recursiveParseEntity_reduce.simps(2)[of pk entity isSparse key currentValue rest acc]
        resolvedTree.simps(2)[of True False pk entity isSparse key currentValue rest]
    show ?thesis
    proof (cases "pk currentValue entity (Some isSparse)")
      case (Inl x)
      with False show ?thesis by (simp add: unf)
    next
      case (Inr b)
      have c: "fst ` set (if truthy b then AList.update key b acc else acc) \<inter> fst ` set rest = {}"
        using a disj by simp
      show ?thesis
        using False Inr "2.IH"(3)[OF False Inr dr c]
        by (auto simp: unf update_fresh[OF fresh] split: sum.splits)
    qed
  qed
qed


lemma reduce_Cons:
  assumes "distinct (map fst ((k, v) # rest))"
  shows "recursiveParseEntity_reduce pk e sp ((k, v) # rest) [] =
     (if isObject v then
        (case recursiveParseEntity_reduce pk e (truthy (lookup (own_entries v) ''isSparse''))
                (own_entries v) [] of
           Inl x \<Rightarrow> Inl x
         | Inr b \<Rightarrow>
             (case recursiveParseEntity_reduce pk e sp rest [] of
                Inl x \<Rightarrow> Inl x
              | Inr r \<Rightarrow> Inr ((k, JObj b) # r)))
      else
        (case pk v e (Some sp) of
           Inl x \<Rightarrow> Inl x
         | Inr p \<Rightarrow>
             (case recursiveParseEntity_reduce pk e sp rest [] of
                Inl x \<Rightarrow> Inl x
              | Inr r \<Rightarrow> Inr (if truthy p then (k, p) # r else r))))"
proof -
  from assms have d: "distinct (map fst rest)" and k: "k \<notin> fst ` set rest" by auto
  have "recursiveParseEntity_reduce pk e sp rest [(k, x)] =
      (case recursiveParseEntity_reduce pk e sp rest [] of Inl y \<Rightarrow> Inl y | Inr r \<Rightarrow> Inr ((k, x) # r))" for x
    using reduce_acc[OF d, of "[(k, x)]" pk e sp] k by (simp split: sum.splits)
  then show ?thesis
    by (simp add: recursiveParseEntity_reduce.simps(2) split: sum.splits)
qed

lemma reduce_leaf_lookup:
  "distinct (map fst kvs) \<Longrightarrow> recursiveParseEntity_reduce pk e sp kvs [] = Inr r \<Longrightarrow>
   (k, v) \<in> set kvs \<Longrightarrow> \<not> isObject v \<Longrightarrow>
   \<exists>p. pk v e (Some sp) = Inr p \<and> (if truthy p then map_of r k = Some p else k \<notin> fst ` set r)"
proof (induction kvs arbitrary: r)
  case Nil
  then show ?case by simp
next
  case (Cons kv rest)
  obtain k' v' where kv: "kv = (k', v')" by (cases kv)
  from Cons.prems(1) kv have d: "distinct (map fst rest)" and k': "k' \<notin> fst ` set rest" by auto
  from Cons.prems(2) obtain r' where r': "recursiveParseEntity_reduce pk e sp rest [] = Inr r'"
    unfolding kv reduce_Cons[OF Cons.prems(1)[unfolded kv]]
    by (auto split: if_splits sum.splits)
  have sub: "fst ` set r' \<subseteq> fst ` set rest"
    using reduce_keys_subset[OF r'] by simp
  show ?case
  proof (cases "(k, v) = (k', v')")
    case True
    with Cons.prems(2,4) r' obtain p where p: "pk v e (Some sp) = Inr p"
      and r: "r = (if truthy p then (k, p) # r' else r')"
      unfolding kv reduce_Cons[OF Cons.prems(1)[unfolded kv]]
      by (auto split: if_splits sum.splits)
    from True k' sub have "k \<notin> fst ` set r'" by auto
    with p r show ?thesis by auto
  next
    case False
    with Cons.prems(3) kv have m: "(k, v) \<in> set rest" by auto
    then have ne: "k \<noteq> k'" using k' by force
    from Cons.IH[OF d r' m Cons.prems(4)] obtain p where
      p: "pk v e (Some sp) = Inr p" "if truthy p then map_of r' k = Some p else k \<notin> fst ` set r'"
      by blast
    from Cons.prems(2) r' have "r = r' \<or> (\<exists>x. r = (k', x) # r')"
      unfolding kv reduce_Cons[OF Cons.prems(1)[unfolded kv]]
      by (auto split: if_splits sum.splits)
    with p ne show ?thesis by (auto split: if_splits)
  qed
qed

lemma reduce_object_present:
  "distinct (map fst kvs) \<Longrightarrow> recursiveParseEntity_reduce pk e sp kvs [] = Inr r \<Longrightarrow>
   (k, v) \<in> set kvs \<Longrightarrow> isObject v \<Longrightarrow> k \<in> fst ` set r"
proof (induction kvs arbitrary: r)
  case Nil
  then show ?case by simp
next
  case (Cons kv rest)
  obtain k' v' where kv: "kv = (k', v')" by (cases kv)
  from Cons.prems(1) kv have d: "distinct (map fst rest)" by auto
  from Cons.prems(2) obtain r' where r': "recursiveParseEntity_reduce pk e sp rest [] = Inr r'"
    unfolding kv reduce_Cons[OF Cons.prems(1)[unfolded kv]]
    by (auto split: if_splits sum.splits)
  show ?case
  proof (cases "(k, v) = (k', v')")
    case True
    with Cons.prems(2,4) r' show ?thesis
      unfolding kv reduce_Cons[OF Cons.prems(1)[unfolded kv]]
      by (auto split: if_splits sum.splits)
  next
    case False
    with Cons.prems(3) kv have m: "(k, v) \<in> set rest" by auto
    from Cons.prems(2) r' have "r = r' \<or> (\<exists>x. r = (k', x) # r')"
      unfolding kv reduce_Cons[OF Cons.prems(1)[unfolded kv]]
      by (auto split: if_splits sum.splits)
    with Cons.IH[OF d r' m Cons.prems(4)] show ?thesis by auto
  qed
qed

text \<open>An error of the walker is an error of the resolver.\<close>

lemma reduce_error_kind:
  "(\<forall>v d opt x. pk v d opt = Inl x \<longrightarrow> (\<exists>n. x = MissingAttributeError n)) \<Longrightarrow>
   recursiveParseEntity_reduce pk e sp kvs acc = Inl err \<Longrightarrow> \<exists>n. err = MissingAttributeError n"
proof (induction pk e sp kvs acc rule: recursiveParseEntity_reduce.induct)
  case (1 pk entity isSparse acc)
  then show ?case by simp
next
  case (2 pk entity isSparse key currentValue rest acc)
  from "2.prems" "2.IH" show ?case
    unfolding recursiveParseEntity_reduce.simps(2)[of pk entity isSparse key currentValue rest acc]
    by (auto split: if_splits sum.splits)
qed

subsection \<open>The modelled resolver\<close>

lemma interpolate_error:
  "interpolate dict sp s cur out = Inl err \<Longrightarrow> \<exists>n. err = MissingAttributeError n"
  by (induction dict sp s cur out rule: interpolate.induct) (auto split: if_splits)

lemma parseKey_error:
  "parseKey v dict opt = Inl err \<Longrightarrow> \<exists>n. err = MissingAttributeError n"
  by (cases v) (auto simp: bind_def split: sum.splits dest: interpolate_error)

section \<open>Claims about the walker and the primary key\<close>

text \<open>
  C10: the result of \<^verbatim>\<open>getParsedPrimaryKey\<close> does not depend on its table argument:
  for any two tables, the same primary-key schema and the same attributes give the same
  result (the same map or the same error).
\<close>

theorem getParsedPrimaryKey_table_independent:
  "getParsedPrimaryKey pk t1 primaryKey attributes = getParsedPrimaryKey pk t2 primaryKey attributes"
  by (simp add: getParsedPrimaryKey_def)

text \<open>
  C3, as the code has it: for every schema whose objects have distinct keys, the walker
  returns the tree of the schema with every leaf replaced by its resolved value and every
  leaf left out whose resolved value is falsy (the absent result of a sparse resolution
  and, for instance, the empty string); a nested node is kept, also when it has become
  empty. An error of the resolver is the error of the walker.
\<close>

theorem recursiveParseEntity_resolvedTree:
  "distinct_keys (JObj node) \<Longrightarrow>
   recursiveParseEntity pk (JObj node) entity isSparse =
     resolvedTree True False pk entity isSparse node"
  using walker_tree_acc[of node "[]" pk entity isSparse]
  by (simp add: recursiveParseEntity_def bind_def split: sum.splits)

text \<open>The schema of one index and one key, on an entity with an empty e-mail address.\<close>

theorem recursiveParseEntity_resolvedTree_witness:
  "distinct_keys (JObj [(''GSI1'', JObj [(''GSI1PK'', JStr ''{email}'')]), (''PK'', JStr ''USER#{id}'')])
   \<and> recursiveParseEntity parseKey
        (JObj [(''GSI1'', JObj [(''GSI1PK'', JStr ''{email}'')]), (''PK'', JStr ''USER#{id}'')])
        [(''id'', JStr ''42''), (''email'', JStr '''')] False =
      resolvedTree True False parseKey [(''id'', JStr ''42''), (''email'', JStr '''')] False
        [(''GSI1'', JObj [(''GSI1PK'', JStr ''{email}'')]), (''PK'', JStr ''USER#{id}'')]
   \<and> resolvedTree True False parseKey [(''id'', JStr ''42''), (''email'', JStr '''')] False
        [(''GSI1'', JObj [(''GSI1PK'', JStr ''{email}'')]), (''PK'', JStr ''USER#{id}'')] =
      Inr [(''GSI1'', JObj []), (''PK'', JStr ''USER#42'')]"
  using recursiveParseEntity_resolvedTree[of
      "[(''GSI1'', JObj [(''GSI1PK'', JStr ''{email}'')]), (''PK'', JStr ''USER#{id}'')]"
      parseKey "[(''id'', JStr ''42''), (''email'', JStr '''')]" False]
  by (simp add: resolvedTree.simps(2) bind_def lookup_def)

text \<open>
  C3, as the claim words it, fails. A nested node without leaves is kept as an empty
  object, whatever the resolver. And where the template of the only leaf of the node
  \<open>GSI1\<close> resolves to the empty string, the walker omits the leaf and keeps the node as
  an empty object: the tree with absent leaves omitted and empty nodes pruned still holds
  the leaf, the tree with falsy leaves omitted and empty nodes pruned is empty.
\<close>

theorem recursiveParseEntity_pruned_counterexample:
  "recursiveParseEntity parseKey (JObj [(''GSI1'', JObj [])]) [] False = Inr [(''GSI1'', JObj [])]
   \<and> resolvedTree False True parseKey [] False [(''GSI1'', JObj [])] = Inr []
   \<and> recursiveParseEntity parseKey (JObj [(''GSI1'', JObj [(''GSI1PK'', JStr ''{email}'')])])
        [(''email'', JStr '''')] False = Inr [(''GSI1'', JObj [])]
   \<and> resolvedTree False True parseKey [(''email'', JStr '''')] False
        [(''GSI1'', JObj [(''GSI1PK'', JStr ''{email}'')])] = Inr [(''GSI1'', JObj [(''GSI1PK'', JStr '''')])]
   \<and> resolvedTree True True parseKey [(''email'', JStr '''')] False
        [(''GSI1'', JObj [(''GSI1PK'', JStr ''{email}'')])] = Inr []"
  by (simp add: recursiveParseEntity_def recursiveParseEntity_reduce.simps(2)
        resolvedTree.simps(2) bind_def lookup_def)

text \<open>
  C9: for every leaf of a schema and every sparse context, the non-sparse one included,
  when the template of the leaf resolves to a falsy value the walker leaves the key of the
  leaf out of its result. The omission is decided by the truthiness of the resolved value.
\<close>

theorem falsy_leaf_omitted:
  assumes "distinct (map fst node)"
    and "(key, template) \<in> set node" and "\<not> isObject template"
    and "pk template entity (Some isSparse) = Inr v" and "\<not> truthy v"
    and "recursiveParseEntity pk (JObj node) entity isSparse = Inr r"
  shows "key \<notin> set (Object_keys r)"
proof -
  from assms(6) have "recursiveParseEntity_reduce pk entity isSparse node [] = Inr r"
    by (simp add: recursiveParseEntity_def bind_def)
  from reduce_leaf_lookup[OF assms(1) this assms(2,3)] assms(4,5)
  show ?thesis by (auto simp: Object_keys_def)
qed

text \<open>A sort key whose template resolves to the empty string, in the non-sparse context.\<close>

theorem falsy_leaf_omitted_witness:
  "distinct (map fst [(''PK'', JStr ''USER#{id}''), (''SK'', JStr ''{name}'')])
   \<and> (''SK'', JStr ''{name}'') \<in> set [(''PK'', JStr ''USER#{id}''), (''SK'', JStr ''{name}'')]
   \<and> \<not> isObject (JStr ''{name}'')
   \<and> parseKey (JStr ''{name}'') [(''id'', JStr ''42''), (''name'', JStr '''')] (Some False) = Inr (JStr '''')
   \<and> \<not> truthy (JStr '''')
   \<and> recursiveParseEntity parseKey (JObj [(''PK'', JStr ''USER#{id}''), (''SK'', JStr ''{name}'')])
        [(''id'', JStr ''42''), (''name'', JStr '''')] False = Inr [(''PK'', JStr ''USER#42'')]
   \<and> ''SK'' \<notin> set (Object_keys [(''PK'', JStr ''USER#42'')])"
proof -
  have 1: "distinct (map fst [(''PK'', JStr ''USER#{id}''), (''SK'', JStr ''{name}'')])" by simp
  have 2: "(''SK'', JStr ''{name}'') \<in> set [(''PK'', JStr ''USER#{id}''), (''SK'', JStr ''{name}'')]" by simp
  have 3: "\<not> isObject (JStr ''{name}'')" by simp
  have 4: "parseKey (JStr ''{name}'') [(''id'', JStr ''42''), (''name'', JStr '''')] (Some False) = Inr (JStr '''')"
    by (simp add: bind_def lookup_def)
  have 5: "\<not> truthy (JStr '''')" by simp
  have 6: "recursiveParseEntity parseKey (JObj [(''PK'', JStr ''USER#{id}''), (''SK'', JStr ''{name}'')])
        [(''id'', JStr ''42''), (''name'', JStr '''')] False = Inr [(''PK'', JStr ''USER#42'')]"
    by (simp add: recursiveParseEntity_def recursiveParseEntity_reduce.simps(2) bind_def lookup_def)
  from falsy_leaf_omitted[OF 1 2 3 4 5 6] 1 2 3 4 5 6 show ?thesis by blast
qed

text \<open>
  C1, as the code has it: for every entity and every primary-key schema whose
  \<^verbatim>\<open>attributes\<close> are an object with distinct keys, and for a resolver that throws
  nothing but \<open>MissingAttributeError\<close>, \<^verbatim>\<open>getParsedPrimaryKey\<close> either throws
  \<open>MissingAttributeError\<close> or returns a map over declared attributes only, in which
  every declared attribute whose template resolves (in the non-sparse context) to a truthy
  value has that value, and from which a declared attribute is missing exactly when its
  template resolves to a falsy value, the empty string for instance.
\<close>

theorem getParsedPrimaryKey_error_or_truthy_part:
  assumes "get_prop primaryKey ''attributes'' = Inr (JObj attrs)"
    and "distinct (map fst attrs)"
    and "\<forall>v d opt x. pk v d opt = Inl x \<longrightarrow> (\<exists>n. x = MissingAttributeError n)"
  shows "(\<exists>n. getParsedPrimaryKey pk tbl primaryKey entity = Inl (MissingAttributeError n))
       \<or> (\<exists>r. getParsedPrimaryKey pk tbl primaryKey entity = Inr r
              \<and> set (Object_keys r) \<subseteq> set (Object_keys attrs)
              \<and> (\<forall>(k, v) \<in> set attrs.
                    if isObject v then k \<in> set (Object_keys r)
                    else \<exists>p. pk v entity (Some False) = Inr p
                           \<and> (if truthy p then lookup r k = p else k \<notin> set (Object_keys r))))"
proof -
  have eq: "getParsedPrimaryKey pk tbl primaryKey entity =
      recursiveParseEntity_reduce pk entity False attrs []"
    using assms(1) by (simp add: getParsedPrimaryKey_def recursiveParseEntity_def bind_def)
  show ?thesis
  proof (cases "recursiveParseEntity_reduce pk entity False attrs []")
    case (Inl err)
    with reduce_error_kind[OF assms(3) Inl] eq show ?thesis by auto
  next
    case (Inr r)
    have sub: "set (Object_keys r) \<subseteq> set (Object_keys attrs)"
      using reduce_keys_subset[OF Inr] by (simp add: Object_keys_def)
    have "if isObject v then k \<in> set (Object_keys r)
          else \<exists>p. pk v entity (Some False) = Inr p
                 \<and> (if truthy p then lookup r k = p else k \<notin> set (Object_keys r))"
      if "(k, v) \<in> set attrs" for k v
    proof (cases "isObject v")
      case True
      from reduce_object_present[OF assms(2) Inr that True] True
      show ?thesis by (simp add: Object_keys_def)
    next
      case False
      from reduce_leaf_lookup[OF assms(2) Inr that False] False
      show ?thesis by (auto simp: lookup_def Object_keys_def split: if_splits)
    qed
    then have "\<forall>(k, v) \<in> set attrs.
          if isObject v then k \<in> set (Object_keys r)
          else \<exists>p. pk v entity (Some False) = Inr p
                 \<and> (if truthy p then lookup r k = p else k \<notin> set (Object_keys r))"
      by blast
    with sub Inr eq show ?thesis by simp
  qed
qed

text \<open>
  The primary key of the user entity, on an entity that has the identifier and on one that
  lacks it.
\<close>

theorem getParsedPrimaryKey_error_or_truthy_part_witness:
  "get_prop user_primaryKey ''attributes'' =
     Inr (JObj [(''PK'', JStr ''USER#{id}''), (''SK'', JStr ''PROFILE#{id}'')])
   \<and> distinct (map fst [(''PK'', JStr ''USER#{id}''), (''SK'', JStr ''PROFILE#{id}'')])
   \<and> getParsedPrimaryKey parseKey user_table user_primaryKey [(''id'', JStr ''42'')] =
       Inr [(''PK'', JStr ''USER#42''), (''SK'', JStr ''PROFILE#42'')]
   \<and> getParsedPrimaryKey parseKey user_table user_primaryKey [(''name'', JStr ''Ann'')] =
       Inl (MissingAttributeError ''id'')"
proof -
  have 1: "get_prop user_primaryKey ''attributes'' =
     Inr (JObj [(''PK'', JStr ''USER#{id}''), (''SK'', JStr ''PROFILE#{id}'')])"
    by (simp add: user_primaryKey_def lookup_def)
  have 2: "distinct (map fst [(''PK'', JStr ''USER#{id}''), (''SK'', JStr ''PROFILE#{id}'')])"
    by simp
  have 3: "\<forall>v d opt x. parseKey v d opt = Inl x \<longrightarrow> (\<exists>n. x = MissingAttributeError n)"
    using parseKey_error by blast
  from getParsedPrimaryKey_error_or_truthy_part[OF 1 2 3, of user_table "[(''id'', JStr ''42'')]"]
  have "getParsedPrimaryKey parseKey user_table user_primaryKey [(''id'', JStr ''42'')] =
       Inr [(''PK'', JStr ''USER#42''), (''SK'', JStr ''PROFILE#42'')]"
    by (simp add: getParsedPrimaryKey_def recursiveParseEntity_def user_primaryKey_def
          recursiveParseEntity_reduce.simps(2) bind_def lookup_def)
  moreover
  from getParsedPrimaryKey_error_or_truthy_part[OF 1 2 3, of user_table "[(''name'', JStr ''Ann'')]"]
  have "getParsedPrimaryKey parseKey user_table user_primaryKey [(''name'', JStr ''Ann'')] =
       Inl (MissingAttributeError ''id'')"
    by (simp add: getParsedPrimaryKey_def recursiveParseEntity_def user_primaryKey_def
          recursiveParseEntity_reduce.simps(2) bind_def lookup_def)
  ultimately show ?thesis using 1 2 by simp
qed

text \<open>
  C1, as the claim words it, fails: with a sort key made of the name alone and an entity
  whose name is the empty string, the returned map holds the partition key and no sort key.
\<close>

theorem getParsedPrimaryKey_partial_counterexample:
  "getParsedPrimaryKey parseKey user_table
     (JObj [(''attributes'', JObj [(''PK'', JStr ''USER#{id}''), (''SK'', JStr ''{name}'')])])
     [(''id'', JStr ''42''), (''name'', JStr '''')]
   = Inr [(''PK'', JStr ''USER#42'')]"
  by (simp add: getParsedPrimaryKey_def recursiveParseEntity_def
        recursiveParseEntity_reduce.simps(2) bind_def lookup_def)

section \<open>Claims about the normalizer\<close>

text \<open>
  C4: for every resolved index whose declared type is the type of its table signature and
  whose attributes can be read, the normalizer yields an object with exactly the key names
  the signature declares (the partition key and the sort key for a GSI, the sort key for
  an LSI), each holding what the resolved attributes hold under that name.
\<close>

theorem onlyKeysIndex_match:
  assumes "get_prop index ''metadata'' = Inr md"
    and "get_prop md ''type'' = Inr (INDEX_TYPE_value (signature_type sig))"
    and "get_prop index ''attributes'' = Inr attrs"
    and "attrs \<noteq> JUndefined" and "attrs \<noteq> JNull"
  shows "\<exists>r. onlyKeysIndex (Some sig) index = Inr (JObj r)
            \<and> set (Object_keys r) = set (signature_keys sig)
            \<and> (\<forall>k \<in> set (signature_keys sig). get_prop attrs k = Inr (lookup r k))"
proof -
  have g: "\<exists>x. get_prop attrs k = Inr x" for k
    using assms(4,5) by (cases attrs) simp_all
  show ?thesis
  proof (cases sig)
    case (GSIIndex p s)
    from g[of p] g[of s] obtain a b where "get_prop attrs p = Inr a" "get_prop attrs s = Inr b"
      by blast
    with assms GSIIndex show ?thesis
      by (auto simp: onlyKeysIndex_def bind_def Object_keys_def lookup_def)
  next
    case (LSIIndex s)
    from g[of s] obtain b where "get_prop attrs s = Inr b" by blast
    with assms LSIIndex show ?thesis
      by (auto simp: onlyKeysIndex_def bind_def Object_keys_def lookup_def)
  qed
qed

text \<open>The example of section 8: the attribute \<open>extra\<close> is dropped.\<close>

theorem onlyKeysIndex_match_witness:
  "get_prop resolved_GSI1 ''metadata'' =
     Inr (JObj [(''_name'', JStr ''GSI1''), (''type'', INDEX_TYPE_value GSI)])
   \<and> get_prop (JObj [(''_name'', JStr ''GSI1''), (''type'', INDEX_TYPE_value GSI)]) ''type'' =
       Inr (INDEX_TYPE_value (signature_type (GSIIndex ''GSI1PK'' ''GSI1SK'')))
   \<and> get_prop resolved_GSI1 ''attributes'' =
       Inr (JObj [(''GSI1PK'', JStr ''a''), (''GSI1SK'', JStr ''b''), (''extra'', JStr ''c'')])
   \<and> onlyKeysIndex (Some (GSIIndex ''GSI1PK'' ''GSI1SK'')) resolved_GSI1 =
       Inr (JObj [(''GSI1PK'', JStr ''a''), (''GSI1SK'', JStr ''b'')])"
proof -
  have 1: "get_prop resolved_GSI1 ''metadata'' =
     Inr (JObj [(''_name'', JStr ''GSI1''), (''type'', INDEX_TYPE_value GSI)])"
    by (simp add: resolved_GSI1_def lookup_def)
  have 2: "get_prop (JObj [(''_name'', JStr ''GSI1''), (''type'', INDEX_TYPE_value GSI)]) ''type'' =
       Inr (INDEX_TYPE_value (signature_type (GSIIndex ''GSI1PK'' ''GSI1SK'')))"
    by (simp add: lookup_def)
  have 3: "get_prop resolved_GSI1 ''attributes'' =
       Inr (JObj [(''GSI1PK'', JStr ''a''), (''GSI1SK'', JStr ''b''), (''extra'', JStr ''c'')])"
    by (simp add: resolved_GSI1_def lookup_def)
  from onlyKeysIndex_match[OF 1 2 3]
  have "onlyKeysIndex (Some (GSIIndex ''GSI1PK'' ''GSI1SK'')) resolved_GSI1 =
       Inr (JObj [(''GSI1PK'', JStr ''a''), (''GSI1SK'', JStr ''b'')])"
    by (simp add: onlyKeysIndex_def resolved_GSI1_def bind_def lookup_def)
  with 1 2 3 show ?thesis by simp
qed

text \<open>
  C5, as the code has it: for every resolved index whose metadata can be read, when the
  table signature is present and its type differs from the declared type of the index, or
  when the signature is missing and the declared type is neither GSI nor LSI, the
  normalizer passes the index through unchanged and throws nothing.
\<close>

theorem onlyKeysIndex_mismatch:
  assumes "get_prop index ''metadata'' = Inr md"
    and "get_prop md ''type'' = Inr ty"
    and "case tableIndexSignature of
           None \<Rightarrow> ty \<noteq> INDEX_TYPE_value GSI \<and> ty \<noteq> INDEX_TYPE_value LSI
         | Some sig \<Rightarrow> ty \<noteq> INDEX_TYPE_value (signature_type sig)"
  shows "onlyKeysIndex tableIndexSignature index = Inr index"
proof (cases tableIndexSignature)
  case None
  with assms show ?thesis by (simp add: onlyKeysIndex_def bind_def)
next
  case (Some sig)
  with assms show ?thesis
    by (cases sig) (auto simp: onlyKeysIndex_def bind_def)
qed

text \<open>An index declared as a GSI whose table signature is an LSI.\<close>

theorem onlyKeysIndex_mismatch_witness:
  "get_prop resolved_GSI1 ''metadata'' =
     Inr (JObj [(''_name'', JStr ''GSI1''), (''type'', INDEX_TYPE_value GSI)])
   \<and> get_prop (JObj [(''_name'', JStr ''GSI1''), (''type'', INDEX_TYPE_value GSI)]) ''type'' =
       Inr (INDEX_TYPE_value GSI)
   \<and> INDEX_TYPE_value GSI \<noteq> INDEX_TYPE_value (signature_type (LSIIndex ''LSI1SK''))
   \<and> onlyKeysIndex (Some (LSIIndex ''LSI1SK'')) resolved_GSI1 = Inr resolved_GSI1"
proof -
  have 1: "get_prop resolved_GSI1 ''metadata'' =
     Inr (JObj [(''_name'', JStr ''GSI1''), (''type'', INDEX_TYPE_value GSI)])"
    by (simp add: resolved_GSI1_def lookup_def)
  have 2: "get_prop (JObj [(''_name'', JStr ''GSI1''), (''type'', INDEX_TYPE_value GSI)]) ''type'' =
       Inr (INDEX_TYPE_value GSI)"
    by (simp add: lookup_def)
  have 3: "INDEX_TYPE_value GSI \<noteq> INDEX_TYPE_value (signature_type (LSIIndex ''LSI1SK''))"
    by simp
  from onlyKeysIndex_mismatch[OF 1 2, of "Some (LSIIndex ''LSI1SK'')"] 1 2 3
  show ?thesis by simp
qed

text \<open>
  C5, as the claim words it, fails: for an index declared as a GSI on a table that declares
  no signature for it, the first condition of the normalizer reads the type of the missing
  signature, and the normalization throws a TypeError.
\<close>

theorem onlyKeysIndex_missing_signature_counterexample:
  "getIndexByKey bare_table (JStr ''GSI1'') = None
   \<and> onlyKeysIndex None resolved_GSI1 = Inl TypeError
   \<and> normalizedIndexes_reduce bare_table [(''GSI1'', resolved_GSI1)] [] = Inl TypeError"
  by (simp add: onlyKeysIndex_def resolved_GSI1_def bare_table_def bind_def lookup_def)

section \<open>Claims about the affected indexes\<close>

lemma affectedIndexes_reduce_skip:
  "\<forall>(k, v) \<in> set kvs. str_includes k sep \<or> \<not> isScalarType v \<Longrightarrow>
   affectedIndexes_reduce pk sep indexes attributes kvs acc = Inr acc"
  by (induction kvs) auto

text \<open>
  C7: for every entity type, resolver and separator (the dot when no option is given), if
  every key of the changed-attribute map contains the separator or maps to a value that is
  not scalar, \<^verbatim>\<open>getAffectedIndexesForAttributes\<close> returns the empty map.
\<close>

theorem getAffectedIndexesForAttributes_nested_or_nonscalar:
  assumes "\<forall>(k, v) \<in> set attributes.
             str_includes k (case options of None \<Rightarrow> ''.'' | Some s \<Rightarrow> s) \<or> \<not> isScalarType v"
  shows "getAffectedIndexesForAttributes pk conn attributes options = Inr []"
  using affectedIndexes_reduce_skip[OF assms]
  by (simp add: getAffectedIndexesForAttributes_def)

text \<open>A dotted key and an array value, on the user entity.\<close>

theorem getAffectedIndexesForAttributes_nested_or_nonscalar_witness:
  "str_includes ''address.city'' ''.'' \<and> \<not> isScalarType (JArr [JStr ''a@b.c''])
   \<and> getAffectedIndexesForAttributes parseKey user_connection
        [(''address.city'', JStr ''Oslo''), (''email'', JArr [JStr ''a@b.c''])] None = Inr []"
proof -
  have h: "\<forall>(k, v) \<in> set [(''address.city'', JStr ''Oslo''), (''email'', JArr [JStr ''a@b.c''])].
       str_includes k (case None of None \<Rightarrow> ''.'' | Some s \<Rightarrow> s) \<or> \<not> isScalarType v"
    by simp
  from getAffectedIndexesForAttributes_nested_or_nonscalar[OF h, of parseKey user_connection]
  show ?thesis by simp
qed

lemma resolveHits_append:
  "resolveHits pk attributes (xs @ ys) acc =
     (case resolveHits pk attributes xs acc of
        Inl e \<Rightarrow> Inl e
      | Inr acc' \<Rightarrow> resolveHits pk attributes ys acc')"
  by (induction pk attributes xs acc rule: resolveHits.induct) (auto split: sum.splits)

lemma interpolations_forEach_hits:
  "list_all (\<lambda>kv. has_includes (snd kv)) ips \<Longrightarrow>
   interpolations_forEach pk attributes attrKey currIndex ips acc =
     resolveHits pk attributes
       (map (\<lambda>kv. (fst kv, bind (get_prop currIndex ''attributes'') (\<lambda>a. get_prop a (fst kv))))
          (filter (\<lambda>kv. includes_call (snd kv) attrKey = Inr True) ips)) acc"
proof (induction ips arbitrary: acc)
  case Nil
  then show ?case by simp
next
  case (Cons kv ips)
  obtain ik ci where kv: "kv = (ik, ci)" by (cases kv)
  from Cons.prems kv have h: "has_includes ci" and r: "list_all (\<lambda>kv. has_includes (snd kv)) ips"
    by simp_all
  from h obtain b where b: "includes_call ci attrKey = Inr b"
    by (cases ci) simp_all
  show ?case
    unfolding kv using b Cons.IH[OF r]
    by (cases b) (auto simp: bind_def split: sum.splits)
qed

lemma indexes_forEach_hits:
  "\<forall>ix \<in> set idxs. readable_index (snd ix) \<Longrightarrow>
   indexes_forEach pk attributes attrKey idxs acc =
     resolveHits pk attributes (concat (map (\<lambda>ix. referencing (snd ix) attrKey) idxs)) acc"
proof (induction idxs arbitrary: acc)
  case Nil
  then show ?case by simp
next
  case (Cons a idxs)
  obtain key currIndex where a: "a = (key, currIndex)" by (cases a)
  from Cons.prems a obtain ip where ip: "interpolationsFor currIndex = Inr ip"
    and la: "list_all (\<lambda>kv. has_includes (snd kv)) (own_entries ip)"
    by (auto simp: readable_index_def split: sum.splits)
  from ip obtain md i where md: "get_prop currIndex ''metadata'' = Inr md"
    and i: "get_prop md ''_interpolations'' = Inr i" and ipi: "ip = nullish i (JObj [])"
    by (auto simp: interpolationsFor_def bind_def split: sum.splits)
  from Cons.prems have rest: "\<forall>ix \<in> set idxs. readable_index (snd ix)" by simp
  have e: "isEmptyObject ip \<Longrightarrow> own_entries ip = []"
    by (cases ip) simp_all
  show ?case
    unfolding a
    using md i Cons.IH[OF rest] interpolations_forEach_hits[OF la, of pk attributes attrKey currIndex acc] e
    by (auto simp: bind_def Let_def ipi[symmetric] referencing_def ip resolveHits_append
          split: sum.splits)
qed

lemma affectedIndexes_reduce_hits:
  "\<forall>ix \<in> set (own_entries indexes). readable_index (snd ix) \<Longrightarrow>
   affectedIndexes_reduce pk sep indexes attributes kvs acc =
     resolveHits pk attributes (hits sep indexes kvs) acc"
proof (induction kvs arbitrary: acc)
  case Nil
  then show ?case by (simp add: hits_def)
next
  case (Cons kv kvs)
  obtain k v where kv: "kv = (k, v)" by (cases kv)
  show ?case
    unfolding kv
    using Cons.IH[OF Cons.prems] indexes_forEach_hits[OF Cons.prems, of pk attributes k acc]
    by (auto simp: hits_def contribution_def considered_def bind_def resolveHits_append
          split: sum.splits)
qed

lemma resolveHits_Cons:
  "resolveHits pk attributes (hit # rest) acc =
     (case snd hit of
        Inl e \<Rightarrow> Inl e
      | Inr template \<Rightarrow>
          (case pk template attributes None of
             Inl e \<Rightarrow> Inl e
           | Inr parsedIndex \<Rightarrow> resolveHits pk attributes rest (AList.update (fst hit) parsedIndex acc)))"
  by (cases hit) (simp split: sum.splits)

lemma resolveHits_throws:
  "resolveHits pk attributes hs acc = Inl e \<Longrightarrow> \<exists>hit \<in> set hs. fails pk attributes hit e"
proof (induction hs arbitrary: acc)
  case Nil
  then show ?case by simp
next
  case (Cons hit hs)
  show ?case
  proof (cases "fails pk attributes hit e")
    case True
    then show ?thesis by simp
  next
    case False
    with Cons.prems obtain acc' where "resolveHits pk attributes hs acc' = Inl e"
      by (auto simp: resolveHits_Cons fails_def split: sum.splits)
    from Cons.IH[OF this] show ?thesis by simp
  qed
qed

lemma resolveHits_returns:
  "resolveHits pk attributes hs acc = Inr r \<Longrightarrow> hit \<in> set hs \<Longrightarrow> \<not> fails pk attributes hit e"
proof (induction hs arbitrary: acc)
  case Nil
  then show ?case by simp
next
  case (Cons h hs)
  from Cons.prems(1) obtain acc' where ok: "\<not> fails pk attributes h e"
    and rest: "resolveHits pk attributes hs acc' = Inr r"
    by (auto simp: resolveHits_Cons fails_def split: sum.splits)
  from Cons.prems(2) Cons.IH[OF rest] ok show ?case by auto
qed

lemma concat_map_removeAll:
  "f x = [] \<Longrightarrow> concat (map f (removeAll x xs)) = concat (map f xs)"
  by (induction xs) auto

text \<open>
  C6, as the code has it: for every entity type whose indexes are readable, every resolver
  and every changed-attribute map, the result of \<^verbatim>\<open>getAffectedIndexesForAttributes\<close> is
  what resolving in turn the templates of the index attributes whose interpolation list
  references a considered changed attribute yields, each template resolved against the
  changed attributes alone with no sparse option and recorded under the name of its index
  attribute. A changed attribute that matches no interpolation contributes nothing, also
  next to attributes that match: leaving it out of the iteration gives the same result.
  When nothing matches, the result is the empty map. The call throws exactly when one of
  these templates cannot be read or the resolver throws on it, and what it throws is that
  error.
\<close>

theorem getAffectedIndexesForAttributes_resolves_hits:
  assumes "\<forall>ix \<in> set (own_entries (lookup (schema (getEntityByTarget conn)) ''indexes'')).
             readable_index (snd ix)"
  shows "getAffectedIndexesForAttributes pk conn attributes options =
           resolveHits pk attributes
             (hits (case options of None \<Rightarrow> ''.'' | Some s \<Rightarrow> s)
                (lookup (schema (getEntityByTarget conn)) ''indexes'') attributes) []
       \<and> (\<forall>kv \<in> set attributes.
             contribution (case options of None \<Rightarrow> ''.'' | Some s \<Rightarrow> s)
               (lookup (schema (getEntityByTarget conn)) ''indexes'') kv = [] \<longrightarrow>
             getAffectedIndexesForAttributes pk conn attributes options =
               resolveHits pk attributes
                 (hits (case options of None \<Rightarrow> ''.'' | Some s \<Rightarrow> s)
                    (lookup (schema (getEntityByTarget conn)) ''indexes'') (removeAll kv attributes)) [])
       \<and> (hits (case options of None \<Rightarrow> ''.'' | Some s \<Rightarrow> s)
             (lookup (schema (getEntityByTarget conn)) ''indexes'') attributes = [] \<longrightarrow>
           getAffectedIndexesForAttributes pk conn attributes options = Inr [])
       \<and> (\<forall>e. getAffectedIndexesForAttributes pk conn attributes options = Inl e \<longrightarrow>
             (\<exists>hit \<in> set (hits (case options of None \<Rightarrow> ''.'' | Some s \<Rightarrow> s)
                              (lookup (schema (getEntityByTarget conn)) ''indexes'') attributes).
                fails pk attributes hit e))
       \<and> ((\<exists>hit \<in> set (hits (case options of None \<Rightarrow> ''.'' | Some s \<Rightarrow> s)
                              (lookup (schema (getEntityByTarget conn)) ''indexes'') attributes).
              \<exists>e. fails pk attributes hit e) \<longrightarrow>
           (\<exists>e. getAffectedIndexesForAttributes pk conn attributes options = Inl e))"
proof -
  define sep where "sep = (case options of None \<Rightarrow> ''.'' | Some s \<Rightarrow> s)"
  define indexes where "indexes = lookup (schema (getEntityByTarget conn)) ''indexes''"
  have a: "getAffectedIndexesForAttributes pk conn attributes options =
      resolveHits pk attributes (hits sep indexes attributes) []"
    using affectedIndexes_reduce_hits[OF assms, of pk sep attributes attributes "[]"]
    by (simp add: getAffectedIndexesForAttributes_def sep_def indexes_def)
  have b: "hits sep indexes (removeAll kv attributes) = hits sep indexes attributes"
    if "contribution sep indexes kv = []" for kv
    using concat_map_removeAll[of "contribution sep indexes" kv attributes] that
    by (simp add: hits_def)
  have c: "hits sep indexes attributes = [] \<Longrightarrow>
      getAffectedIndexesForAttributes pk conn attributes options = Inr []"
    using a by simp
  have d: "\<exists>hit \<in> set (hits sep indexes attributes). fails pk attributes hit e"
    if "getAffectedIndexesForAttributes pk conn attributes options = Inl e" for e
    using that a resolveHits_throws[of pk attributes "hits sep indexes attributes" "[]" e] by simp
  have e: "\<exists>e. getAffectedIndexesForAttributes pk conn attributes options = Inl e"
    if "\<exists>hit \<in> set (hits sep indexes attributes). \<exists>e. fails pk attributes hit e"
  proof (cases "getAffectedIndexesForAttributes pk conn attributes options")
    case (Inl x)
    then show ?thesis by blast
  next
    case (Inr r)
    with a have "resolveHits pk attributes (hits sep indexes attributes) [] = Inr r" by simp
    from resolveHits_returns[OF this] that show ?thesis by blast
  qed
  from a b c d e show ?thesis
    unfolding sep_def[symmetric] indexes_def[symmetric] by simp
qed

text \<open>
  On the user entity: a changed name matches nothing, alone and next to a changed e-mail
  address, which matches the partition key of \<open>GSI1\<close>; the sort key of \<open>GSI1\<close> fails
  on a changed status, for want of the identifier.
\<close>

theorem getAffectedIndexesForAttributes_resolves_hits_witness:
  "readable_index user_GSI1
   \<and> contribution ''.'' (JObj [(''GSI1'', user_GSI1)]) (''name'', JStr ''Ann'') = []
   \<and> hits ''.'' (JObj [(''GSI1'', user_GSI1)]) [(''name'', JStr ''Ann''), (''email'', JStr ''x@y.z'')] =
       [(''GSI1PK'', Inr (JStr ''EMAIL#{email}''))]
   \<and> getAffectedIndexesForAttributes parseKey user_connection
        [(''name'', JStr ''Ann''), (''email'', JStr ''x@y.z'')] None =
       Inr [(''GSI1PK'', JStr ''EMAIL#x@y.z'')]
   \<and> getAffectedIndexesForAttributes parseKey user_connection [(''name'', JStr ''Ann'')] None = Inr []
   \<and> fails parseKey [(''status'', JStr ''active'')] (''GSI1SK'', Inr (JStr ''USER#{id}#{status}''))
        (MissingAttributeError ''id'')"
proof -
  have r: "readable_index user_GSI1"
    by (simp add: readable_index_def interpolationsFor_def user_GSI1_def bind_def lookup_def)
  then have h: "\<forall>ix \<in> set (own_entries (lookup (schema (getEntityByTarget user_connection)) ''indexes'')).
             readable_index (snd ix)"
    by (simp add: user_connection_def lookup_def)
  have c: "contribution ''.'' (JObj [(''GSI1'', user_GSI1)]) (''name'', JStr ''Ann'') = []"
    by (simp add: contribution_def considered_def referencing_def interpolationsFor_def
          user_GSI1_def bind_def lookup_def)
  have hs: "hits ''.'' (JObj [(''GSI1'', user_GSI1)]) [(''name'', JStr ''Ann''), (''email'', JStr ''x@y.z'')] =
       [(''GSI1PK'', Inr (JStr ''EMAIL#{email}''))]"
    by (simp add: hits_def contribution_def considered_def referencing_def interpolationsFor_def
          user_GSI1_def bind_def lookup_def)
  have h0: "hits ''.'' (JObj [(''GSI1'', user_GSI1)]) [(''name'', JStr ''Ann'')] = []"
    by (simp add: hits_def c)
  have ix: "lookup (schema (getEntityByTarget user_connection)) ''indexes'' = JObj [(''GSI1'', user_GSI1)]"
    by (simp add: user_connection_def lookup_def)
  have f: "fails parseKey [(''status'', JStr ''active'')] (''GSI1SK'', Inr (JStr ''USER#{id}#{status}''))
        (MissingAttributeError ''id'')"
    by (simp add: fails_def bind_def lookup_def)
  note t1 = getAffectedIndexesForAttributes_resolves_hits[OF h, of parseKey
      "[(''name'', JStr ''Ann''), (''email'', JStr ''x@y.z'')]" None, unfolded ix]
  note t2 = getAffectedIndexesForAttributes_resolves_hits[OF h, of parseKey
      "[(''name'', JStr ''Ann'')]" None, unfolded ix]
  from t1 have 1: "getAffectedIndexesForAttributes parseKey user_connection
        [(''name'', JStr ''Ann''), (''email'', JStr ''x@y.z'')] None =
       Inr [(''GSI1PK'', JStr ''EMAIL#x@y.z'')]"
    by (simp add: hs bind_def lookup_def)
  from t2 have 2: "getAffectedIndexesForAttributes parseKey user_connection [(''name'', JStr ''Ann'')] None = Inr []"
    by (simp add: h0)
  from r c hs 1 2 f show ?thesis by simp
qed

text \<open>
  C6, as the claim words it, fails: the changed status is referenced by the sort key of
  \<open>GSI1\<close>, whose template also references the identifier; the template is resolved
  against the changed attributes alone, without sparse semantics, and the call throws.
\<close>

theorem getAffectedIndexesForAttributes_throws_counterexample:
  "getAffectedIndexesForAttributes parseKey user_connection [(''status'', JStr ''active'')] None =
     Inl (MissingAttributeError ''id'')"
  by (simp add: getAffectedIndexesForAttributes_def user_connection_def user_GSI1_def
        lookup_def bind_def)

section \<open>Claims about the entity-to-storage transform\<close>

text \<open>
  C2 at an input where the code departs from it: the index \<open>GSI1\<close> is sparse, its
  templates reference the e-mail address and the entity has none. The walker omits both
  attributes of the index; the normalizer, whose signature is a GSI as the index is, then
  reads them by name from the resolved attributes and puts both names into the output with
  the value \<^verbatim>\<open>undefined\<close>.
\<close>

theorem toDynamoEntity_sparse_undefined_keys:
  "toDynamoEntity parseKey sparse_connection [(''id'', JStr ''42'')] =
     Inr [(''id'', JStr ''42''), (''PK'', JStr ''USER#42''), (''SK'', JStr ''PROFILE#42''),
          (''GSI1PK'', JUndefined), (''GSI1SK'', JUndefined)]"
  by (simp add: toDynamoEntity_def formattedSchema_def autoPopulate_def sparse_connection_def
        sparse_GSI1_def user_primaryKey_def user_table_def getParsedPrimaryKey_def
        recursiveParseEntity_def recursiveParseEntity_reduce.simps(2) onlyKeysIndex_def
        spread_def lookup_def bind_def)

text \<open>
  When only the metadata of the index carries the flag, the templates are resolved in the
  non-sparse context and the transform throws instead.
\<close>

lemma toDynamoEntity_flag_in_metadata_throws:
  "toDynamoEntity parseKey
     \<lparr>getEntityByTarget =
        \<lparr>schema = [(''primaryKey'', user_primaryKey),
                   (''indexes'', JObj [(''GSI1'',
                      JObj [(''attributes'', JObj [(''GSI1PK'', JStr ''EMAIL#{email}''),
                                                   (''GSI1SK'', JStr ''EMAIL#{email}'')]),
                            (''metadata'', JObj [(''_name'', JStr ''GSI1''),
                                                 (''type'', INDEX_TYPE_value GSI),
                                                 (''isSparse'', JBool True)])])])],
         table = user_table\<rparr>,
      getAttributesForEntity = []\<rparr>
     [(''id'', JStr ''42'')] = Inl (MissingAttributeError ''email'')"
  by (simp add: toDynamoEntity_def formattedSchema_def autoPopulate_def
        user_primaryKey_def user_table_def getParsedPrimaryKey_def
        recursiveParseEntity_def recursiveParseEntity_reduce.simps(2) onlyKeysIndex_def
        spread_def lookup_def bind_def)

subsection \<open>The caller's instance\<close>

lemma autoPopulate_store_frame:
  "entity < length h \<Longrightarrow> autoPopulate_store attrs h entity = (h', entity') \<Longrightarrow>
   take (length h) h' = h \<and> entity' < length h' \<and> h' ! entity' = autoPopulate attrs (h ! entity)"
proof (induction attrs arbitrary: h entity)
  case Nil
  then show ?case by (simp add: autoPopulate_store_def autoPopulate_def)
next
  case (Cons attr attrs)
  show ?case
  proof (cases "IsAutoGeneratedAttributeMetadata attr")
    case False
    with Cons.prems(2) have "autoPopulate_store attrs h entity = (h', entity')"
      by (simp add: autoPopulate_store_def)
    from Cons.IH[OF Cons.prems(1) this] False show ?thesis
      by (simp add: autoPopulate_def)
  next
    case True
    define ob where "ob = AList.update (attr_name attr) (attr_value attr) (spread [] (h ! entity))"
    have lit: "length h < length (h @ [ob])" by simp
    from True Cons.prems(2) have step: "autoPopulate_store attrs (h @ [ob]) (length h) = (h', entity')"
      by (simp add: autoPopulate_store_def alloc_def ob_def Object_assign_def)
    from Cons.IH[OF lit step] have
      t: "take (length (h @ [ob])) h' = h @ [ob]" and e: "entity' < length h'"
      and v: "h' ! entity' = autoPopulate attrs ((h @ [ob]) ! length h)"
      by simp_all
    from t have "take (length h) (take (length (h @ [ob])) h') = take (length h) (h @ [ob])"
      by simp
    then have "take (length h) h' = h" by (simp add: min_def)
    with e v True show ?thesis by (simp add: autoPopulate_def ob_def)
  qed
qed

text \<open>
  The transform on the store computes what the transform on the properties computes: the
  same error, or a reference to a new object with the same properties.
\<close>

lemma toDynamoEntity_store_refines:
  assumes "entity < length h"
  shows "case toDynamoEntity pk conn (h ! entity) of
           Inl e \<Rightarrow> snd (toDynamoEntity_store pk conn h entity) = Inl e
         | Inr r \<Rightarrow> \<exists>res. snd (toDynamoEntity_store pk conn h entity) = Inr res
                     \<and> fst (toDynamoEntity_store pk conn h entity) ! res = r"
proof -
  obtain h1 e1 where ap: "autoPopulate_store (getAttributesForEntity conn) h entity = (h1, e1)"
    by (cases "autoPopulate_store (getAttributesForEntity conn) h entity")
  from autoPopulate_store_frame[OF assms ap]
  have v: "h1 ! e1 = autoPopulate (getAttributesForEntity conn) (h ! entity)" by simp
  show ?thesis
    using ap v
    by (simp add: toDynamoEntity_def toDynamoEntity_store_def alloc_def bind_def Let_def
          split: sum.splits)
qed

text \<open>
  C8: for every store and every entity in it, the transform leaves the entity as it was,
  whether it returns or throws: no property of the caller's instance is added, removed or
  overwritten, and no other object that existed before is changed either. The merge of the
  auto-generated attributes and the result are new objects.
\<close>

theorem toDynamoEntity_store_frame:
  assumes "entity < length h"
  shows "fst (toDynamoEntity_store pk conn h entity) ! entity = h ! entity
       \<and> take (length h) (fst (toDynamoEntity_store pk conn h entity)) = h"
proof -
  obtain h1 e1 where ap: "autoPopulate_store (getAttributesForEntity conn) h entity = (h1, e1)"
    by (cases "autoPopulate_store (getAttributesForEntity conn) h entity")
  from autoPopulate_store_frame[OF assms ap] have t: "take (length h) h1 = h" by simp
  from arg_cong[OF t, of length] have len: "length h \<le> length h1"
    by simp
  have "take (length h) (fst (toDynamoEntity_store pk conn h entity)) = h"
    using ap t len
    by (simp add: toDynamoEntity_store_def alloc_def Let_def split: sum.splits)
  moreover from this assms have "fst (toDynamoEntity_store pk conn h entity) ! entity = h ! entity"
    by (metis nth_take)
  ultimately show ?thesis by simp
qed

text \<open>
  A user with an auto-generated \<open>createdAt\<close>: the store gains the working copy and the
  result, the entity at position 0 stays.
\<close>

theorem toDynamoEntity_store_frame_witness:
  "(0::nat) < length [[(''id'', JStr ''42''), (''email'', JStr ''a@b.c''), (''status'', JStr ''active'')]]
   \<and> toDynamoEntity_store parseKey user_connection
        [[(''id'', JStr ''42''), (''email'', JStr ''a@b.c''), (''status'', JStr ''active'')]] 0 =
       ([[(''id'', JStr ''42''), (''email'', JStr ''a@b.c''), (''status'', JStr ''active'')],
         [(''id'', JStr ''42''), (''email'', JStr ''a@b.c''), (''status'', JStr ''active''),
          (''createdAt'', JNum 1604361600)],
         [(''id'', JStr ''42''), (''email'', JStr ''a@b.c''), (''status'', JStr ''active''),
          (''createdAt'', JNum 1604361600), (''PK'', JStr ''USER#42''), (''SK'', JStr ''PROFILE#42''),
          (''GSI1PK'', JStr ''EMAIL#a@b.c''), (''GSI1SK'', JStr ''USER#42#active'')]],
        Inr 2)"
proof -
  have h: "(0::nat) < length [[(''id'', JStr ''42''), (''email'', JStr ''a@b.c''), (''status'', JStr ''active'')]]"
    by simp
  from toDynamoEntity_store_frame[OF h, of parseKey user_connection]
  have "toDynamoEntity_store parseKey user_connection
        [[(''id'', JStr ''42''), (''email'', JStr ''a@b.c''), (''status'', JStr ''active'')]] 0 =
       ([[(''id'', JStr ''42''), (''email'', JStr ''a@b.c''), (''status'', JStr ''active'')],
         [(''id'', JStr ''42''), (''email'', JStr ''a@b.c''), (''status'', JStr ''active''),
          (''createdAt'', JNum 1604361600)],
         [(''id'', JStr ''42''), (''email'', JStr ''a@b.c''), (''status'', JStr ''active''),
          (''createdAt'', JNum 1604361600), (''PK'', JStr ''USER#42''), (''SK'', JStr ''PROFILE#42''),
          (''GSI1PK'', JStr ''EMAIL#a@b.c''), (''GSI1SK'', JStr ''USER#42#active'')]],
        Inr 2)"
    by (simp add: toDynamoEntity_store_def autoPopulate_store_def alloc_def Object_assign_def
          formattedSchema_def user_connection_def user_GSI1_def user_primaryKey_def user_table_def
          getParsedPrimaryKey_def recursiveParseEntity_def recursiveParseEntity_reduce.simps(2)
          onlyKeysIndex_def spread_def lookup_def bind_def)
  with h show ?thesis by simp
qed


end
